theory Spec2Isabelle
  imports Complex_Main "HOL-Library.AList"
begin

section \<open>The request dispatch core of \<open>vkquick/api.py\<close>\<close>

subsection \<open>Name conversion: \<open>_convert_name\<close> and \<open>__getattr__\<close>\<close>

text \<open>
  A name is a \<^typ>\<open>string\<close>, the bytes of its UTF-8 encoding: the pattern only matches
  ASCII characters, and every byte of a character outside ASCII is above 127, so the
  conversion acts on the bytes as it acts on the code points.

  The character class \<open>[a-z]\<close> of the pattern and \<open>str.upper\<close> on a character of
  that class. Outside the class \<open>upper_char\<close> is never applied by \<open>convert_name\<close>.
\<close>

definition is_lower :: "char \<Rightarrow> bool" where
  "is_lower c = (of_char (CHR ''a'') \<le> (of_char c :: nat) \<and> (of_char c :: nat) \<le> of_char (CHR ''z''))"

definition upper_char :: "char \<Rightarrow> char" where
  "upper_char c = (if is_lower c then char_of ((of_char c :: nat) - 32) else c)"

text \<open>
  \<open>re.sub(r"_(?P<let>[a-z])", self._upper_zero_group, name)\<close>: the scan goes from left
  to right over non-overlapping matches; a match is an underscore followed by a
  character of \<open>[a-z]\<close>, and it is replaced by that character in upper case.
\<close>

fun convert_name :: "string \<Rightarrow> string" where
  "convert_name [] = []"
| "convert_name [c] = [c]"
| "convert_name (c # d # cs) =
     (if c = CHR ''_'' \<and> is_lower d then upper_char d # convert_name cs
      else c # convert_name (d # cs))"

text \<open>
  \<open>__getattr__\<close> on the accumulator \<open>_method_name\<close>: the attribute is converted, then
  appended after a dot when the accumulator is non-empty, and stored as it is otherwise.
\<close>

definition getattr_name :: "string \<Rightarrow> string \<Rightarrow> string" where
  "getattr_name acc attribute =
     (let attribute = convert_name attribute
      in if acc \<noteq> [] then acc @ ''.'' @ attribute else attribute)"

text \<open>A chain of attribute accesses on a fresh accumulator (\<open>_method_name = ""\<close>).\<close>

definition getattr_chain :: "string list \<Rightarrow> string" where
  "getattr_chain attributes = foldl getattr_name [] attributes"

subsection \<open>Values\<close>

text \<open>
  A decoded JSON document, as \<open>json_parser.loads\<close> returns it: \<open>None\<close>, a bool, an int,
  a float, a str, a list or a dict with string keys (kept in document order).
\<close>

datatype json =
    JNull
  | JBool bool
  | JInt int
  | JFloat real
  | JStr string
  | JList "json list"
  | JDict "(string \<times> json) list"

text \<open>
  The values of request parameters. \<open>PSet\<close> holds the elements of a set in the order in
  which iterating over it yields them.
\<close>

datatype pyval =
    PNone
  | PBool bool
  | PInt int
  | PFloat real
  | PStr string
  | PList "pyval list"
  | PTuple "pyval list"
  | PSet "pyval list"

text \<open>
  A \<open>dict\<close> with string keys: its items in insertion order. Assigning to a key that is
  present replaces the value in place, assigning to a new key appends the item; this is
  \<^const>\<open>AList.update\<close>. Keys of a \<open>dict\<close> are distinct.
\<close>

type_synonym pydict = "(string \<times> pyval) list"

definition wf_dict :: "pydict \<Rightarrow> bool" where
  "wf_dict d = distinct (map fst d)"

text \<open>\<open>d.update(other)\<close> and the unpacking \<open>{..., **other}\<close>: one assignment per item of \<open>other\<close>.\<close>

definition dict_update :: "pydict \<Rightarrow> pydict \<Rightarrow> pydict" where
  "dict_update d other = foldl (\<lambda>acc (k, v). AList.update k v acc) d other"

text \<open>
  The store of \<open>dict\<close> objects: an address is an index, a new object is appended.
\<close>

type_synonym addr = nat
type_synonym heap = "pydict list"

definition alloc :: "heap \<Rightarrow> pydict \<Rightarrow> addr \<times> heap" where
  "alloc h d = (length h, h @ [d])"

text \<open>
  Modelled from the spec: \<open>vkquick.exceptions.VkApiError.destruct_response\<close>, which
  builds the typed remote API error from the response it is given (the error "carries
  the remote-assigned numeric code, human-readable message, and any additional
  remote-supplied context fields"); here the error carries that response. The other
  constructors are Python's \<open>KeyError\<close> (with the missing key) and \<open>TypeError\<close>, and an
  exception that the transport or the JSON codec raised.
\<close>

datatype error =
    VkApiError json
  | KeyError string
  | TypeError
  | External string

subsection \<open>\<open>str\<close> and \<open>",".join\<close>\<close>

definition digit_char :: "nat \<Rightarrow> char" where
  "digit_char n = char_of (48 + n)"

fun digits :: "nat \<Rightarrow> string" where
  "digits n = (if n < 10 then [digit_char n] else digits (n div 10) @ [digit_char (n mod 10)])"

declare digits.simps [simp del]

definition str_int :: "int \<Rightarrow> string" where
  "str_int i = (if i < 0 then CHR ''-'' # digits (nat (- i)) else digits (nat i))"

text \<open>
  Python's \<open>str\<close> on a parameter value. On \<open>None\<close>, a bool, an int and a str it is
  written out; on a float and on a nested collection it is \<open>str_rest\<close>, a parameter.
\<close>

fun py_str :: "(pyval \<Rightarrow> string) \<Rightarrow> pyval \<Rightarrow> string" where
  "py_str str_rest PNone = ''None''"
| "py_str str_rest (PBool b) = (if b then ''True'' else ''False'')"
| "py_str str_rest (PInt i) = str_int i"
| "py_str str_rest (PStr s) = s"
| "py_str str_rest v = str_rest v"

fun comma_join :: "string list \<Rightarrow> string" where
  "comma_join [] = []"
| "comma_join [s] = s"
| "comma_join (s # t # ss) = s @ '','' @ comma_join (t # ss)"

subsection \<open>The client\<close>

datatype TokenOwner = GROUP | USER

record 'w api =
  token :: string
  version :: pyval
  autocomplete_params :: addr
  host :: string
  response_factory :: "json \<Rightarrow> 'w"
  method_name :: string
  last_request_time :: real
  token_owner :: TokenOwner
  delay :: real

text \<open>\<open>__getattr__\<close> on the client: the accumulator is the field \<open>_method_name\<close>.\<close>

definition getattr :: "'w api \<Rightarrow> string \<Rightarrow> 'w api" where
  "getattr self attribute = self\<lparr>method_name := getattr_name (method_name self) attribute\<rparr>"

subsection \<open>The request encoder: \<open>_fill_request_params\<close> and the flattening loop\<close>

text \<open>
  \<open>{"access_token": self.token, "v": self.version, **params}\<close>: a new dictionary.
\<close>

definition fill_request_params :: "'w api \<Rightarrow> pydict \<Rightarrow> pydict" where
  "fill_request_params self params =
     dict_update [(''access_token'', PStr (token self)), (''v'', version self)] params"

text \<open>\<open>isinstance(value, (list, set, tuple))\<close>, with the elements in iteration order.\<close>

fun collection_items :: "pyval \<Rightarrow> pyval list option" where
  "collection_items (PList xs) = Some xs"
| "collection_items (PSet xs) = Some xs"
| "collection_items (PTuple xs) = Some xs"
| "collection_items v = None"

text \<open>
  One iteration of \<open>for key, value in request_params.items()\<close>: the item at position
  \<open>i\<close> is read from the dictionary as it is now, and a collection value is replaced
  by \<open>",".join(map(str, value))\<close>.
\<close>

definition flatten_step :: "(pyval \<Rightarrow> string) \<Rightarrow> pydict \<Rightarrow> nat \<Rightarrow> pydict" where
  "flatten_step str_rest d i =
     (case d ! i of (key, value) \<Rightarrow>
        (case collection_items value of
           Some xs \<Rightarrow> AList.update key (PStr (comma_join (map (py_str str_rest) xs))) d
         | None \<Rightarrow> d))"

definition flatten_params :: "(pyval \<Rightarrow> string) \<Rightarrow> pydict \<Rightarrow> pydict" where
  "flatten_params str_rest d = foldl (flatten_step str_rest) d [0..<length d]"

text \<open>
  What the loop leaves under a key whose value was \<open>v\<close>, and the item it leaves for an
  item \<open>p\<close>; used to state the loop's result.
\<close>

definition flatten_value :: "(pyval \<Rightarrow> string) \<Rightarrow> pyval \<Rightarrow> pyval" where
  "flatten_value str_rest v =
     (case collection_items v of
        Some xs \<Rightarrow> PStr (comma_join (map (py_str str_rest) xs))
      | None \<Rightarrow> v)"

definition flatten_item :: "(pyval \<Rightarrow> string) \<Rightarrow> string \<times> pyval \<Rightarrow> string \<times> pyval" where
  "flatten_item str_rest p = (fst p, flatten_value str_rest (snd p))"

subsection \<open>The rate limiter: \<open>_waiting\<close>\<close>

text \<open>
  \<open>now\<close> is the reading of \<open>time.time()\<close>. The result is the argument of the call of
  \<open>asyncio.sleep\<close> (\<open>None\<close> when it is not called) and the client after the step.
  Times are real numbers.
\<close>

definition waiting :: "'w api \<Rightarrow> real \<Rightarrow> real option \<times> 'w api" where
  "waiting self now =
     (let diff = now - last_request_time self
      in if diff < delay self
         then (let wait_time = delay self - diff
               in (Some wait_time, self\<lparr>last_request_time := last_request_time self + delay self\<rparr>))
         else (None, self\<lparr>last_request_time := now\<rparr>))"

definition suspended :: "real option \<Rightarrow> real" where
  "suspended s = (case s of None \<Rightarrow> 0 | Some t \<Rightarrow> t)"

subsection \<open>The response normalizer: \<open>_check_errors\<close> and the end of \<open>_make_api_request\<close>\<close>

text \<open>\<open>needle in haystack\<close> for a string needle and a decoded JSON value.\<close>

fun is_substring :: "string \<Rightarrow> string \<Rightarrow> bool" where
  "is_substring p [] = (p = [])"
| "is_substring p (c # cs) = (take (length p) (c # cs) = p \<or> is_substring p cs)"

fun py_contains :: "string \<Rightarrow> json \<Rightarrow> error + bool" where
  "py_contains k (JDict d) = Inr (k \<in> set (map fst d))"
| "py_contains k (JList xs) = Inr (JStr k \<in> set xs)"
| "py_contains k (JStr s) = Inr (is_substring k s)"
| "py_contains k v = Inl TypeError"

text \<open>\<open>value[key]\<close> for a string key.\<close>

fun py_getitem :: "json \<Rightarrow> string \<Rightarrow> error + json" where
  "py_getitem (JDict d) k = (case map_of d k of Some v \<Rightarrow> Inr v | None \<Rightarrow> Inl (KeyError k))"
| "py_getitem v k = Inl TypeError"

definition check_errors :: "json \<Rightarrow> error + unit" where
  "check_errors response =
     (case py_contains ''error'' response of
        Inl e \<Rightarrow> Inl e
      | Inr True \<Rightarrow> Inl (VkApiError response)
      | Inr False \<Rightarrow> Inr ())"

datatype 'w normalized = Wrapped 'w | WrappedList "'w list" | Scalar json

text \<open>Lines 232 to 237 of \<open>_make_api_request\<close>, on the decoded body.\<close>

definition normalize_response :: "(json \<Rightarrow> 'w) \<Rightarrow> json \<Rightarrow> error + 'w normalized" where
  "normalize_response factory body =
     (case check_errors body of
        Inl e \<Rightarrow> Inl e
      | Inr _ \<Rightarrow>
          (case py_getitem body ''response'' of
             Inl e \<Rightarrow> Inl e
           | Inr r \<Rightarrow>
               (case r of
                  JDict _ \<Rightarrow> Inr (Wrapped (factory r))
                | JList xs \<Rightarrow> Inr (WrappedList (map factory xs))
                | _ \<Rightarrow> Inr (Scalar r))))"

subsection \<open>The credential classifier: \<open>define_token_owner\<close> and \<open>__post_init__\<close>\<close>

text \<open>The truth value of a decoded JSON value, as \<open>x if value else y\<close> tests it.\<close>

fun truthy :: "json \<Rightarrow> bool" where
  "truthy JNull = False"
| "truthy (JBool b) = b"
| "truthy (JInt i) = (i \<noteq> 0)"
| "truthy (JFloat r) = (r \<noteq> 0)"
| "truthy (JStr s) = (s \<noteq> [])"
| "truthy (JList xs) = (xs \<noteq> [])"
| "truthy (JDict d) = (d \<noteq> [])"

text \<open>
  \<open>resp\<close> is the decoded body of the probe request (sending the request and decoding
  the body belong to \<open>urllib\<close> and to the JSON codec). The error check is applied to
  \<open>resp["response"]\<close>, as line 289 has it.
\<close>

definition define_token_owner :: "json \<Rightarrow> error + TokenOwner" where
  "define_token_owner resp =
     (case py_getitem resp ''response'' of
        Inl e \<Rightarrow> Inl e
      | Inr r \<Rightarrow>
          (case check_errors r of
             Inl e \<Rightarrow> Inl e
           | Inr _ \<Rightarrow> Inr (if truthy r then USER else GROUP)))"

text \<open>
  \<open>__post_init__\<close>, after the generated \<open>__init__\<close> has stored the five fields. The
  transport session and the JSON parser that it also creates are not part of the record:
  what they produce enters \<open>make_api_request\<close> as \<open>reply\<close>.
\<close>

definition post_init ::
  "string \<Rightarrow> pyval \<Rightarrow> addr \<Rightarrow> string \<Rightarrow> (json \<Rightarrow> 'w) \<Rightarrow> json \<Rightarrow> error + 'w api" where
  "post_init tok ver auto hst factory resp =
     (case define_token_owner resp of
        Inl e \<Rightarrow> Inl e
      | Inr owner \<Rightarrow>
          Inr \<lparr>token = tok, version = ver, autocomplete_params = auto, host = hst,
               response_factory = factory, method_name = [], last_request_time = 0,
               token_owner = owner, delay = (if owner = USER then 1 / 3 else 1 / 20)\<rparr>)"

subsection \<open>The dispatcher: \<open>__call__\<close>, \<open>method\<close> and \<open>_make_api_request\<close>\<close>

text \<open>
  The coroutine that \<open>_make_api_request\<close> returns when it is called: its arguments, the
  method name and the address of the dictionary \<open>request_params\<close>. Nothing of its body
  has run yet.
\<close>

type_synonym request = "string \<times> addr"

text \<open>
  \<open>__call__\<close>. The keyword arguments \<open>**request_params\<close> arrive in a new dictionary.
\<close>

definition call :: "'w api \<Rightarrow> heap \<Rightarrow> bool \<Rightarrow> pydict \<Rightarrow> 'w api \<times> heap \<times> request" where
  "call self h use_autocomplete_params kwargs =
     (let (request_params, h) = alloc h kwargs;
          name = convert_name (method_name self);
          (request_params, h) = alloc h (fill_request_params self (h ! request_params));
          h = (if use_autocomplete_params
               then h[request_params :=
                        dict_update (h ! request_params) (h ! autocomplete_params self)]
               else h);
          self = self\<lparr>method_name := []\<rparr>
      in (self, h, (name, request_params)))"

text \<open>
  The function \<open>method\<close> of the client (\<open>api_method\<close> here, as \<open>method\<close> is a keyword):
  \<open>request_params\<close> is the address of the caller's dictionary.
\<close>

definition api_method :: "'w api \<Rightarrow> heap \<Rightarrow> string \<Rightarrow> addr \<Rightarrow> heap \<times> request" where
  "api_method self h name request_params =
     (let name = convert_name name;
          (request_params, h) = alloc h (fill_request_params self (h ! request_params))
      in (h, (name, request_params)))"

text \<open>
  Running the coroutine. \<open>now\<close> is the reading of the clock in \<open>_waiting\<close>; \<open>reply\<close> is
  what writing the query, reading the body and decoding it produce: an exception or
  the decoded body. The loop of lines 219 to 221 assigns to the dictionary at
  \<open>request_params\<close>.
\<close>

definition make_api_request ::
  "(pyval \<Rightarrow> string) \<Rightarrow> 'w api \<Rightarrow> heap \<Rightarrow> real \<Rightarrow> error + json \<Rightarrow> request
     \<Rightarrow> 'w api \<times> heap \<times> (error + 'w normalized)" where
  "make_api_request str_rest self h now reply req =
     (case req of (name, request_params) \<Rightarrow>
        (let h = h[request_params := flatten_params str_rest (h ! request_params)];
             (slept, self) = waiting self now
         in (self, h,
             (case reply of
                Inl e \<Rightarrow> Inl e
              | Inr body \<Rightarrow> normalize_response (response_factory self) body))))"

subsection \<open>Auxiliary definitions\<close>

text \<open>A string is settled when no underscore in it is followed by a character of \<open>[a-z]\<close>.\<close>

fun settled :: "string \<Rightarrow> bool" where
  "settled [] = True"
| "settled [c] = True"
| "settled (c # d # cs) = (\<not> (c = CHR ''_'' \<and> is_lower d) \<and> settled (d # cs))"

text \<open>A client of the user class, for the concrete instances below.\<close>

definition example_api :: "json api" where
  "example_api =
     \<lparr>token = ''t'', version = PStr ''5.133'', autocomplete_params = 0, host = ''api.vk.com'',
      response_factory = (\<lambda>j. j), method_name = ''messages.send'', last_request_time = 10,
      token_owner = USER, delay = 1 / 3\<rparr>"

subsection \<open>Properties of the name conversion\<close>

lemma lower_range: "is_lower d \<Longrightarrow> 97 \<le> (of_char d :: nat) \<and> (of_char d :: nat) \<le> 122"
  by (simp add: is_lower_def)

lemma of_char_upper_char:
  assumes "is_lower d"
  shows "(of_char (upper_char d) :: nat) = of_char d - 32"
proof -
  have "(of_char d :: nat) - 32 < 256"
    using lower_range [OF assms] by arith
  then show ?thesis
    using assms by (simp add: upper_char_def)
qed

lemma upper_range:
  assumes "is_lower d"
  shows "(of_char (upper_char d) :: nat) \<le> 90"
  using lower_range [OF assms] of_char_upper_char [OF assms] by arith

lemma is_lower_upper_char: "is_lower d \<Longrightarrow> \<not> is_lower (upper_char d)"
proof
  assume l: "is_lower d" and u: "is_lower (upper_char d)"
  from upper_range [OF l] lower_range [OF u] show False by arith
qed

lemma upper_char_not_underscore: "is_lower d \<Longrightarrow> upper_char d \<noteq> CHR ''_''"
proof
  assume l: "is_lower d" and u: "upper_char d = CHR ''_''"
  from u have "(of_char (upper_char d) :: nat) = 95" by simp
  with upper_range [OF l] show False by arith
qed

lemma underscore_not_lower: "\<not> is_lower (CHR ''_'')"
  by (simp add: is_lower_def)

lemma dot_not_lower: "\<not> is_lower (CHR ''.'')"
  by (simp add: is_lower_def)

lemma convert_name_settled_id: "settled xs \<Longrightarrow> convert_name xs = xs"
  by (induction xs rule: settled.induct) auto

lemma convert_name_head:
  "convert_name (d # cs) = e # es \<Longrightarrow> is_lower e \<Longrightarrow> e = d"
  by (cases cs) (auto split: if_splits simp: is_lower_upper_char)

lemma convert_name_Nil_iff: "convert_name xs = [] \<longleftrightarrow> xs = []"
  by (induction xs rule: convert_name.induct) auto

lemma settled_Cons:
  "settled (c # xs) \<longleftrightarrow> (xs = [] \<or> (\<not> (c = CHR ''_'' \<and> is_lower (hd xs)) \<and> settled xs))"
  by (cases xs) auto

lemma settled_convert_name: "settled (convert_name xs)"
proof (induction xs rule: convert_name.induct)
  case 1
  show ?case by simp
next
  case (2 c)
  show ?case by simp
next
  case (3 c d cs)
  show ?case
  proof (cases "c = CHR ''_'' \<and> is_lower d")
    case True
    with 3 have ih: "settled (convert_name cs)" by simp
    have "upper_char d \<noteq> CHR ''_''"
      using True by (simp add: upper_char_not_underscore)
    with ih True show ?thesis by (simp add: settled_Cons)
  next
    case False
    with 3 have ih: "settled (convert_name (d # cs))" by simp
    obtain e es where ees: "convert_name (d # cs) = e # es"
      using convert_name_Nil_iff [of "d # cs"] by (cases "convert_name (d # cs)") auto
    have "\<not> (c = CHR ''_'' \<and> is_lower e)"
    proof
      assume a: "c = CHR ''_'' \<and> is_lower e"
      with ees have "e = d" using convert_name_head by blast
      with a False show False by simp
    qed
    then have "settled (c # e # es)"
      using ih ees by simp
    moreover have "convert_name (c # d # cs) = c # e # es"
      using False ees by auto
    ultimately show ?thesis by simp
  qed
qed

lemma settled_no_underscore: "CHR ''_'' \<notin> set xs \<Longrightarrow> settled xs"
  by (induction xs rule: settled.induct) auto

lemma settled_append_dot:
  "settled xs \<Longrightarrow> settled ys \<Longrightarrow> settled (xs @ CHR ''.'' # ys)"
proof (induction xs rule: settled.induct)
  case 1
  then show ?case by (simp add: settled_Cons)
next
  case (2 c)
  then show ?case by (simp add: settled_Cons dot_not_lower)
next
  case (3 c d cs)
  then show ?case by simp
qed

lemma settled_getattr_name: "settled acc \<Longrightarrow> settled (getattr_name acc a)"
  by (simp add: getattr_name_def Let_def settled_append_dot settled_convert_name)

lemma settled_foldl_getattr: "settled acc \<Longrightarrow> settled (foldl getattr_name acc as)"
  by (induction as arbitrary: acc) (simp_all add: settled_getattr_name)

text \<open>
  C7. \<open>_convert_name\<close> is idempotent on every string; a string with no underscore is
  unchanged; and the name that \<open>__getattr__\<close> accumulates segment by segment is unchanged
  by the conversion that \<open>__call__\<close> applies to it again.
\<close>

theorem convert_name_idempotent:
  "convert_name (convert_name x) = convert_name x
   \<and> (CHR ''_'' \<notin> set x \<longrightarrow> convert_name x = x)
   \<and> convert_name (getattr_chain attributes) = getattr_chain attributes"
proof (intro conjI impI)
  show "convert_name (convert_name x) = convert_name x"
    by (rule convert_name_settled_id [OF settled_convert_name])
  show "convert_name x = x" if "CHR ''_'' \<notin> set x"
    using that by (simp add: convert_name_settled_id settled_no_underscore)
  have "settled (getattr_chain attributes)"
    unfolding getattr_chain_def by (rule settled_foldl_getattr) simp
  then show "convert_name (getattr_chain attributes) = getattr_chain attributes"
    by (rule convert_name_settled_id)
qed

theorem convert_name_idempotent_witness:
  "CHR ''_'' \<notin> set ''getById''
   \<and> convert_name ''getById'' = ''getById''
   \<and> convert_name (convert_name ''get_by_id'') = convert_name ''get_by_id''
   \<and> convert_name ''get_by_id'' = ''getById''
   \<and> getattr_chain [''messages'', ''get_by_id''] = ''messages.getById''
   \<and> convert_name (getattr_chain [''messages'', ''get_by_id'']) = ''messages.getById''"
  using convert_name_idempotent [of "''getById''" "[''messages'', ''get_by_id'']"]
    convert_name_idempotent [of "''get_by_id''" "[]"]
  by (simp add: getattr_chain_def getattr_name_def is_lower_def upper_char_def char_of_def
      bit_Suc_0_iff)

subsection \<open>The rate limiter\<close>

text \<open>
  C1. One call of \<open>_waiting\<close> with a positive minimum interval \<open>delay\<close>, where
  \<open>elapsed = now - last_request_time\<close> at entry. If \<open>elapsed \<ge> delay\<close>, \<open>asyncio.sleep\<close> is
  not called (the call suspends for no time) and \<open>last_request_time\<close> becomes \<open>now\<close>. If
  \<open>elapsed < delay\<close>, the call sleeps for exactly \<open>delay - elapsed\<close> and \<open>last_request_time\<close>
  becomes its previous value plus \<open>delay\<close>, not the time after waking.
\<close>

theorem waiting_step:
  assumes "0 < delay self"
  shows "(delay self \<le> now - last_request_time self \<longrightarrow>
            fst (waiting self now) = None
          \<and> suspended (fst (waiting self now)) = 0
          \<and> last_request_time (snd (waiting self now)) = now)
       \<and> (now - last_request_time self < delay self \<longrightarrow>
            fst (waiting self now) = Some (delay self - (now - last_request_time self))
          \<and> suspended (fst (waiting self now)) = delay self - (now - last_request_time self)
          \<and> last_request_time (snd (waiting self now)) = last_request_time self + delay self)"
  by (simp add: waiting_def suspended_def Let_def)

theorem waiting_step_witness:
  "0 < delay example_api
   \<and> delay example_api \<le> 11 - last_request_time example_api
   \<and> waiting example_api 11 = (None, example_api\<lparr>last_request_time := 11\<rparr>)
   \<and> (41 / 4) - last_request_time example_api < delay example_api
   \<and> fst (waiting example_api (41 / 4)) = Some (1 / 12)
   \<and> last_request_time (snd (waiting example_api (41 / 4))) = 10 + 1 / 3"
  using waiting_step [of example_api 11] waiting_step [of example_api "41 / 4"]
  by (simp add: example_api_def waiting_def Let_def)

subsection \<open>The response normalizer\<close>

lemma check_errors_dict:
  "check_errors (JDict env) =
     (if ''error'' \<in> fst ` set env then Inl (VkApiError (JDict env)) else Inr ())"
  by (simp add: check_errors_def)

lemma normalize_error_key:
  "''error'' \<in> fst ` set env \<Longrightarrow> normalize_response factory (JDict env) = Inl (VkApiError (JDict env))"
  by (simp add: normalize_response_def check_errors_dict)

lemma normalize_no_error_key:
  "''error'' \<notin> fst ` set env \<Longrightarrow>
   normalize_response factory (JDict env) =
     (case map_of env ''response'' of
        None \<Rightarrow> Inl (KeyError ''response'')
      | Some r \<Rightarrow>
          (case r of
             JDict _ \<Rightarrow> Inr (Wrapped (factory r))
           | JList xs \<Rightarrow> Inr (WrappedList (map factory xs))
           | _ \<Rightarrow> Inr (Scalar r)))"
  by (simp add: normalize_response_def check_errors_dict split: option.splits)

text \<open>
  C2. Normalizing a decoded envelope (a JSON object) raises the typed remote API error
  if and only if the envelope has the key \<open>error\<close>. Otherwise, when \<open>r\<close> is the value
  under \<open>response\<close>: a mapping is returned as one wrapped object \<open>factory r\<close>; a sequence
  is returned as a sequence of the same length whose element at each position is the
  wrapped element of \<open>r\<close> at that position; any other value is returned unchanged.
\<close>

theorem normalize_envelope:
  "((\<exists>e. normalize_response factory (JDict env) = Inl (VkApiError e)) \<longleftrightarrow> ''error'' \<in> fst ` set env)
   \<and> (''error'' \<notin> fst ` set env \<longrightarrow> map_of env ''response'' = Some r \<longrightarrow>
        (\<forall>d. r = JDict d \<longrightarrow> normalize_response factory (JDict env) = Inr (Wrapped (factory r)))
      \<and> (\<forall>xs. r = JList xs \<longrightarrow>
            (\<exists>ws. normalize_response factory (JDict env) = Inr (WrappedList ws)
                \<and> length ws = length xs
                \<and> (\<forall>i < length xs. ws ! i = factory (xs ! i))))
      \<and> ((\<forall>d. r \<noteq> JDict d) \<and> (\<forall>xs. r \<noteq> JList xs) \<longrightarrow>
            normalize_response factory (JDict env) = Inr (Scalar r)))"
proof (intro conjI impI)
  show "(\<exists>e. normalize_response factory (JDict env) = Inl (VkApiError e)) \<longleftrightarrow> ''error'' \<in> fst ` set env"
  proof (cases "''error'' \<in> fst ` set env")
    case True
    then show ?thesis by (simp add: normalize_error_key)
  next
    case False
    then show ?thesis
      by (simp add: normalize_no_error_key split: option.splits json.splits)
  qed
next
  assume a: "''error'' \<notin> fst ` set env" "map_of env ''response'' = Some r"
  then show "\<forall>d. r = JDict d \<longrightarrow> normalize_response factory (JDict env) = Inr (Wrapped (factory r))"
    by (simp add: normalize_no_error_key)
  from a show "\<forall>xs. r = JList xs \<longrightarrow>
            (\<exists>ws. normalize_response factory (JDict env) = Inr (WrappedList ws)
                \<and> length ws = length xs
                \<and> (\<forall>i < length xs. ws ! i = factory (xs ! i)))"
    by (simp add: normalize_no_error_key)
  from a show "(\<forall>d. r \<noteq> JDict d) \<and> (\<forall>xs. r \<noteq> JList xs) \<Longrightarrow>
            normalize_response factory (JDict env) = Inr (Scalar r)"
    by (cases r) (simp_all add: normalize_no_error_key)
qed


theorem normalize_envelope_witness:
  "''error'' \<notin> fst ` set [(''response'', JList [JDict [(''id'', JInt 1)], JDict [(''id'', JInt 2)]])]
   \<and> normalize_response (\<lambda>j. j) (JDict [(''response'', JList [JDict [(''id'', JInt 1)], JDict [(''id'', JInt 2)]])])
       = Inr (WrappedList [JDict [(''id'', JInt 1)], JDict [(''id'', JInt 2)]])
   \<and> normalize_response (\<lambda>j. j) (JDict [(''response'', JDict [(''title'', JStr ''chat'')])])
       = Inr (Wrapped (JDict [(''title'', JStr ''chat'')]))
   \<and> normalize_response (\<lambda>j. j) (JDict [(''response'', JInt 1)]) = Inr (Scalar (JInt 1))
   \<and> ''error'' \<in> fst ` set [(''error'', JDict [(''error_code'', JInt 5), (''error_msg'', JStr ''bad token'')])]
   \<and> (\<exists>e. normalize_response (\<lambda>j. j)
             (JDict [(''error'', JDict [(''error_code'', JInt 5), (''error_msg'', JStr ''bad token'')])])
           = Inl (VkApiError e))"
  using
    normalize_envelope [of "\<lambda>j. j"
      "[(''response'', JList [JDict [(''id'', JInt 1)], JDict [(''id'', JInt 2)]])]"
      "JList [JDict [(''id'', JInt 1)], JDict [(''id'', JInt 2)]]"]
    normalize_envelope [of "\<lambda>j. j" "[(''response'', JDict [(''title'', JStr ''chat'')])]"
      "JDict [(''title'', JStr ''chat'')]"]
    normalize_envelope [of "\<lambda>j. j" "[(''response'', JInt 1)]" "JInt 1"]
    normalize_envelope [of "\<lambda>j. j"
      "[(''error'', JDict [(''error_code'', JInt 5), (''error_msg'', JStr ''bad token'')])]" "JNull"]
  by (simp add: normalize_response_def check_errors_def)

subsection \<open>The credential classifier\<close>

text \<open>
  C3. The probe \<open>define_token_owner\<close> on the error envelope
  \<open>{"error": {"error_code": 5, "error_msg": "bad token"}}\<close>: the subscript
  \<open>resp["response"]\<close> raises \<open>KeyError\<close> before \<open>_check_errors\<close> is reached, so the typed
  API error is not what is raised, whereas the normalizer of \<open>_make_api_request\<close>, which
  checks the envelope itself, raises the typed API error on the same envelope. On an
  envelope that has both keys, with an empty \<open>response\<close>, the probe raises nothing and
  returns the group class.
\<close>

theorem define_token_owner_error_envelope:
  "define_token_owner
     (JDict [(''error'', JDict [(''error_code'', JInt 5), (''error_msg'', JStr ''bad token'')])])
     = Inl (KeyError ''response'')
   \<and> normalize_response factory
     (JDict [(''error'', JDict [(''error_code'', JInt 5), (''error_msg'', JStr ''bad token'')])])
     = Inl (VkApiError
         (JDict [(''error'', JDict [(''error_code'', JInt 5), (''error_msg'', JStr ''bad token'')])]))
   \<and> define_token_owner
     (JDict [(''error'', JDict [(''error_code'', JInt 5), (''error_msg'', JStr ''bad token'')]),
             (''response'', JList [])])
     = Inr GROUP"
  by (simp add: define_token_owner_def normalize_response_def check_errors_def)

lemma check_errors_objects:
  assumes "\<forall>x \<in> set xs. \<exists>d. x = JDict d"
  shows "check_errors (JList xs) = Inr ()"
proof -
  have "JStr ''error'' \<notin> set xs"
    using assms by auto
  then show ?thesis
    by (simp add: check_errors_def)
qed

lemma define_token_owner_passed:
  "map_of env ''response'' = Some r \<Longrightarrow> check_errors r = Inr () \<Longrightarrow>
   define_token_owner (JDict env) = Inr (if truthy r then USER else GROUP)"
  by (simp add: define_token_owner_def)


text \<open>
  Where the error check of line 289 accepts the \<open>response\<close> value, the classification and
  the interval follow the truth value of that value: an empty value gives the group class
  and the interval \<open>1 / 20\<close>, a non-empty value gives the user class and the interval
  \<open>1 / 3\<close>, and the user interval is between 6 and 7 times the group interval. By
  \<open>check_errors_objects\<close> every array of objects is accepted by the check.
\<close>

lemma classification_accepted:
  assumes "map_of envG ''response'' = Some rG" and "check_errors rG = Inr ()" and "\<not> truthy rG"
    and "map_of envU ''response'' = Some rU" and "check_errors rU = Inr ()" and "truthy rU"
  shows "\<exists>selfG selfU.
           post_init tok ver auto hst factory (JDict envG) = Inr selfG
         \<and> post_init tok ver auto hst factory (JDict envU) = Inr selfU
         \<and> token_owner selfG = GROUP \<and> delay selfG = 1 / 20
         \<and> token_owner selfU = USER \<and> delay selfU = 1 / 3
         \<and> delay selfG < delay selfU
         \<and> 6 < delay selfU / delay selfG \<and> delay selfU / delay selfG < 7"
  using assms by (simp add: post_init_def define_token_owner_passed)

lemma classification_accepted_example:
  "map_of [(''response'', JList [])] ''response'' = Some (JList [])
   \<and> check_errors (JList []) = Inr () \<and> \<not> truthy (JList [])
   \<and> map_of [(''response'', JList [JDict [(''id'', JInt 1)]])] ''response''
       = Some (JList [JDict [(''id'', JInt 1)]])
   \<and> check_errors (JList [JDict [(''id'', JInt 1)]]) = Inr ()
   \<and> truthy (JList [JDict [(''id'', JInt 1)]])
   \<and> (\<exists>selfG selfU.
           post_init ''t'' (PStr ''5.133'') 0 ''api.vk.com'' (\<lambda>j. j) (JDict [(''response'', JList [])])
             = Inr selfG
         \<and> post_init ''t'' (PStr ''5.133'') 0 ''api.vk.com'' (\<lambda>j. j)
               (JDict [(''response'', JList [JDict [(''id'', JInt 1)]])]) = Inr selfU
         \<and> token_owner selfG = GROUP \<and> delay selfG = 1 / 20
         \<and> token_owner selfU = USER \<and> delay selfU = 1 / 3
         \<and> delay selfG < delay selfU
         \<and> 6 < delay selfU / delay selfG \<and> delay selfU / delay selfG < 7)"
proof -
  have g: "map_of [(''response'', JList [])] ''response'' = Some (JList [])" by simp
  have gc: "check_errors (JList []) = Inr ()" by (simp add: check_errors_def)
  have gt: "\<not> truthy (JList [])" by simp
  have u: "map_of [(''response'', JList [JDict [(''id'', JInt 1)]])] ''response''
       = Some (JList [JDict [(''id'', JInt 1)]])" by simp
  have uc: "check_errors (JList [JDict [(''id'', JInt 1)]]) = Inr ()" by (simp add: check_errors_def)
  have ut: "truthy (JList [JDict [(''id'', JInt 1)]])" by simp
  from classification_accepted [OF g gc gt u uc ut, of "''t''" "PStr ''5.133''" 0 "''api.vk.com''" "\<lambda>j. j"]
  show ?thesis using g gc gt u uc ut by blast
qed

subsection \<open>The request encoder\<close>

lemma map_of_dict_update:
  "distinct (map fst other) \<Longrightarrow> map_of (dict_update d other) = map_of d ++ map_of other"
proof (induction other arbitrary: d)
  case Nil
  show ?case by (simp add: dict_update_def)
next
  case (Cons p other)
  obtain k v where p: "p = (k, v)" by (cases p)
  from Cons.prems p have k: "k \<notin> fst ` set other" and d: "distinct (map fst other)" by auto
  have "map_of (dict_update d (p # other)) = map_of (dict_update (AList.update k v d) other)"
    by (simp add: dict_update_def p)
  also have "\<dots> = (map_of d)(k \<mapsto> v) ++ map_of other"
    by (simp only: Cons.IH [OF d] AList.update_conv')
  also have "\<dots> = map_of d ++ map_of (p # other)"
  proof (rule ext)
    fix x
    have kn: "map_of other k = None"
      using k by (simp add: map_of_eq_None_iff)
    show "((map_of d)(k \<mapsto> v) ++ map_of other) x = (map_of d ++ map_of (p # other)) x"
      by (cases "x = k") (simp_all add: p map_add_def kn split: option.splits)
  qed
  finally show ?case .
qed

lemma wf_dict_update: "wf_dict d \<Longrightarrow> wf_dict (dict_update d other)"
  unfolding wf_dict_def dict_update_def
  by (induction other arbitrary: d) (auto simp: AList.distinct_update)

text \<open>
  C5. For every caller-supplied parameter dictionary, the merged request parameters map
  each key of the caller to the caller's value, also when the key is \<open>access_token\<close> or
  \<open>v\<close>; under a key that the caller did not supply they hold the default
  (\<open>access_token\<close>: the token, \<open>v\<close>: the version) and nothing else.
\<close>

theorem fill_request_params_caller_wins:
  assumes "wf_dict params"
  shows "wf_dict (fill_request_params self params)
       \<and> (\<forall>k v. map_of params k = Some v \<longrightarrow> map_of (fill_request_params self params) k = Some v)
       \<and> (\<forall>k. k \<notin> fst ` set params \<longrightarrow>
            map_of (fill_request_params self params) k =
              (if k = ''access_token'' then Some (PStr (token self))
               else if k = ''v'' then Some (version self) else None))"
proof -
  have m: "map_of (fill_request_params self params) =
           map_of [(''access_token'', PStr (token self)), (''v'', version self)] ++ map_of params"
    unfolding fill_request_params_def using assms
    by (intro map_of_dict_update) (simp add: wf_dict_def)
  have w: "wf_dict (fill_request_params self params)"
    unfolding fill_request_params_def by (rule wf_dict_update) (simp add: wf_dict_def)
  have c: "\<forall>k v. map_of params k = Some v \<longrightarrow> map_of (fill_request_params self params) k = Some v"
    by (simp add: m)
  have "map_of (fill_request_params self params) k =
              (if k = ''access_token'' then Some (PStr (token self))
               else if k = ''v'' then Some (version self) else None)"
    if "k \<notin> fst ` set params" for k
  proof -
    from that have "map_of params k = None"
      by (simp add: map_of_eq_None_iff)
    then show ?thesis
      by (simp add: m map_add_def)
  qed
  with w c show ?thesis by blast
qed

theorem fill_request_params_caller_wins_witness:
  "wf_dict [(''v'', PStr ''5.100''), (''peer_ids'', PInt 1)]
   \<and> fill_request_params example_api [(''v'', PStr ''5.100''), (''peer_ids'', PInt 1)]
       = [(''access_token'', PStr ''t''), (''v'', PStr ''5.100''), (''peer_ids'', PInt 1)]
   \<and> map_of (fill_request_params example_api [(''v'', PStr ''5.100''), (''peer_ids'', PInt 1)]) ''v''
       = Some (PStr ''5.100'')
   \<and> map_of (fill_request_params example_api [(''v'', PStr ''5.100''), (''peer_ids'', PInt 1)])
         ''access_token'' = Some (PStr ''t'')"
  using fill_request_params_caller_wins
    [of "[(''v'', PStr ''5.100''), (''peer_ids'', PInt 1)]" example_api]
  by (simp add: wf_dict_def fill_request_params_def dict_update_def example_api_def)

lemma update_at_index:
  "distinct (map fst xs) \<Longrightarrow> n < length xs \<Longrightarrow> fst (xs ! n) = k \<Longrightarrow>
   AList.update k v xs = xs[n := (k, v)]"
proof (induction xs arbitrary: n)
  case Nil
  then show ?case by simp
next
  case (Cons p xs)
  show ?case
  proof (cases n)
    case 0
    with Cons.prems show ?thesis by simp
  next
    case (Suc m)
    with Cons.prems have "fst p \<noteq> k"
      by (metis distinct.simps(2) list.simps(9) nth_Cons_Suc nth_map nth_mem length_map Suc_less_eq length_Cons)
    with Cons Suc show ?thesis by simp
  qed
qed

lemma flatten_step_eq:
  assumes "distinct (map fst acc)" and "n < length acc"
  shows "flatten_step str_rest acc n = acc[n := flatten_item str_rest (acc ! n)]"
proof (cases "acc ! n")
  case (Pair k v)
  show ?thesis
  proof (cases "collection_items v")
    case None
    moreover have "acc[n := (k, v)] = acc"
      using list_update_id [of acc n] by (simp add: Pair)
    ultimately show ?thesis
      by (simp add: flatten_step_def Pair flatten_item_def flatten_value_def)
  next
    case (Some xs)
    then show ?thesis
      using update_at_index [OF assms, of k] Pair
      by (simp add: flatten_step_def flatten_item_def flatten_value_def)
  qed
qed

lemma map_take_update:
  "n < length d \<Longrightarrow>
   (map f (take n d) @ drop n d)[n := f (d ! n)] = map f (take (Suc n) d) @ drop (Suc n) d"
  by (simp add: take_Suc_conv_app_nth list_update_append Cons_nth_drop_Suc [symmetric])

lemma fst_flatten_item: "fst \<circ> flatten_item str_rest = fst"
  by (rule ext) (simp add: flatten_item_def)

lemma flatten_prefix:
  "wf_dict d \<Longrightarrow> n \<le> length d \<Longrightarrow>
   foldl (flatten_step str_rest) d [0..<n] = map (flatten_item str_rest) (take n d) @ drop n d"
proof (induction n)
  case 0
  show ?case by simp
next
  case (Suc n)
  let ?acc = "map (flatten_item str_rest) (take n d) @ drop n d"
  from Suc have ih: "foldl (flatten_step str_rest) d [0..<n] = ?acc" and n: "n < length d"
    by simp_all
  have keys: "map fst ?acc = map fst d"
    by (simp add: fst_flatten_item flip: map_append [of fst])
  have dist: "distinct (map fst ?acc)"
    using Suc.prems(1) by (simp only: keys wf_dict_def)
  have len: "n < length ?acc"
    using n by simp
  have nth: "?acc ! n = d ! n"
    using n by (simp add: nth_append)
  have "foldl (flatten_step str_rest) d [0..<Suc n] = flatten_step str_rest ?acc n"
    by (simp add: ih)
  also have "\<dots> = ?acc[n := flatten_item str_rest (d ! n)]"
    using flatten_step_eq [OF dist len] by (simp only: nth)
  also have "\<dots> = map (flatten_item str_rest) (take (Suc n) d) @ drop (Suc n) d"
    by (rule map_take_update [OF n])
  finally show ?case .
qed

lemma flatten_params_eq:
  "wf_dict d \<Longrightarrow> flatten_params str_rest d = map (flatten_item str_rest) d"
  using flatten_prefix [of d "length d" str_rest] by (simp add: flatten_params_def)

lemma map_of_flatten_params:
  assumes "wf_dict d"
  shows "map_of (flatten_params str_rest d) k = map_option (flatten_value str_rest) (map_of d k)"
proof -
  have "map_of (map (flatten_item str_rest) d) k = map_option (flatten_value str_rest) (map_of d k)"
    by (induction d) (simp_all add: flatten_item_def)
  then show ?thesis
    by (simp only: flatten_params_eq [OF assms])
qed

text \<open>
  C6. The flattening loop of \<open>_make_api_request\<close>: under a key whose value is a list or a
  tuple \<open>xs\<close> it leaves the string \<open>",".join(map(str, xs))\<close>, the string forms of the
  elements in their order joined by commas (the list \<open>[1, 2, 3]\<close> becomes \<open>"1,2,3"\<close>); a
  value that is not a list, set or tuple is left unchanged; the keys and their order
  are unchanged.
\<close>

theorem flatten_params_joins:
  assumes "wf_dict d" and "map_of d k = Some v"
  shows "(\<forall>xs. v = PList xs \<or> v = PTuple xs \<longrightarrow>
            map_of (flatten_params str_rest d) k
              = Some (PStr (comma_join (map (py_str str_rest) xs))))
       \<and> (collection_items v = None \<longrightarrow> map_of (flatten_params str_rest d) k = Some v)
       \<and> map fst (flatten_params str_rest d) = map fst d"
proof -
  have m: "map_of (flatten_params str_rest d) k = Some (flatten_value str_rest v)"
    by (simp add: map_of_flatten_params [OF assms(1)] assms(2))
  have "map fst (flatten_params str_rest d) = map fst d"
    by (simp add: flatten_params_eq [OF assms(1)] fst_flatten_item)
  then show ?thesis
    by (auto simp: m flatten_value_def)
qed

theorem flatten_params_joins_witness:
  "wf_dict [(''ids'', PList [PInt 1, PInt 2, PInt 3]), (''name'', PStr ''x'')]
   \<and> map_of [(''ids'', PList [PInt 1, PInt 2, PInt 3]), (''name'', PStr ''x'')] ''ids''
       = Some (PList [PInt 1, PInt 2, PInt 3])
   \<and> map_of (flatten_params (\<lambda>v. []) [(''ids'', PList [PInt 1, PInt 2, PInt 3]), (''name'', PStr ''x'')])
        ''ids'' = Some (PStr ''1,2,3'')
   \<and> collection_items (PStr ''x'') = None
   \<and> map_of (flatten_params (\<lambda>v. []) [(''ids'', PList [PInt 1, PInt 2, PInt 3]), (''name'', PStr ''x'')])
        ''name'' = Some (PStr ''x'')"
  using flatten_params_joins
    [of "[(''ids'', PList [PInt 1, PInt 2, PInt 3]), (''name'', PStr ''x'')]" "''ids''"
        "PList [PInt 1, PInt 2, PInt 3]" "\<lambda>v. []"]
    flatten_params_joins
    [of "[(''ids'', PList [PInt 1, PInt 2, PInt 3]), (''name'', PStr ''x'')]" "''name''"
        "PStr ''x''" "\<lambda>v. []"]
  by (simp add: wf_dict_def str_int_def digits.simps digit_char_def char_of_def bit_Suc_0_iff)

subsection \<open>The dispatcher\<close>

text \<open>
  C8. For every accumulated method name, \<open>__call__\<close> returns with the accumulator
  \<open>_method_name\<close> empty, the request not yet run and carrying the converted name. Whatever
  the request then meets (\<open>reply\<close> ranges over the exceptions of the transport and of the
  decoder and over all decoded bodies, error envelopes included), the accumulator is
  still empty afterwards, and the next attribute access starts a fresh name.
\<close>

theorem call_resets_method_name:
  "(case call self h use_autocomplete_params kwargs of
      (self1, h1, req) \<Rightarrow>
        method_name self1 = []
      \<and> fst req = convert_name (method_name self)
      \<and> (case make_api_request str_rest self1 h1 now reply req of
            (self2, h2, result) \<Rightarrow>
              method_name self2 = []
            \<and> method_name (getattr self2 attribute) = convert_name attribute))"
  by (simp add: call_def make_api_request_def waiting_def alloc_def getattr_def getattr_name_def
      Let_def split: prod.splits)

lemma wf_fill_request_params: "wf_dict (fill_request_params self params)"
  unfolding fill_request_params_def by (rule wf_dict_update) (simp add: wf_dict_def)

lemma call_autocomplete:
  "autocomplete_params self < length h \<Longrightarrow>
   call self h True kwargs =
     (self\<lparr>method_name := []\<rparr>,
      h @ [kwargs, dict_update (fill_request_params self kwargs) (h ! autocomplete_params self)],
      (convert_name (method_name self), Suc (length h)))"
  by (simp add: call_def alloc_def Let_def nth_append list_update_append)

text \<open>
  C9. \<open>__call__\<close> with \<open>use_autocomplete_params_\<close> true: under every key \<open>k\<close> of
  \<open>autocomplete_params\<close>, the request parameters handed to \<open>_make_api_request\<close> hold the
  autocomplete value, whatever the caller supplied under \<open>k\<close> and also when \<open>k\<close> is
  \<open>access_token\<close> or \<open>v\<close>; after the flattening loop they hold that value as the loop
  encodes it.
\<close>

theorem call_autocomplete_overrides:
  assumes "autocomplete_params self < length h"
    and "wf_dict (h ! autocomplete_params self)"
    and "map_of (h ! autocomplete_params self) k = Some v"
  shows "(case call self h True kwargs of
            (self1, h1, (name, request_params)) \<Rightarrow>
              map_of (h1 ! request_params) k = Some v
            \<and> (case make_api_request str_rest self1 h1 now reply (name, request_params) of
                  (self2, h2, result) \<Rightarrow>
                    map_of (h2 ! request_params) k = Some (flatten_value str_rest v)))"
proof -
  let ?merged = "dict_update (fill_request_params self kwargs) (h ! autocomplete_params self)"
  have m: "map_of ?merged k = Some v"
    using assms(2,3) by (simp add: map_of_dict_update wf_dict_def)
  have w: "wf_dict ?merged"
    by (rule wf_dict_update [OF wf_fill_request_params])
  have f: "map_of (flatten_params str_rest ?merged) k = Some (flatten_value str_rest v)"
    by (simp add: map_of_flatten_params [OF w] m)
  show ?thesis
    using m f
    by (simp add: call_autocomplete [OF assms(1)] make_api_request_def nth_append
        split: prod.splits)
qed

theorem call_autocomplete_overrides_witness:
  "autocomplete_params example_api < length [[(''group_id'', PInt 123), (''v'', PStr ''5.0'')]]
   \<and> wf_dict ([[(''group_id'', PInt 123), (''v'', PStr ''5.0'')]] ! autocomplete_params example_api)
   \<and> map_of ([[(''group_id'', PInt 123), (''v'', PStr ''5.0'')]] ! autocomplete_params example_api)
         ''v'' = Some (PStr ''5.0'')
   \<and> (case call example_api [[(''group_id'', PInt 123), (''v'', PStr ''5.0'')]] True
              [(''group_id'', PInt 7)] of
         (self1, h1, (name, request_params)) \<Rightarrow>
           h1 ! request_params
             = [(''access_token'', PStr ''t''), (''v'', PStr ''5.0''), (''group_id'', PInt 123)]
         \<and> map_of (h1 ! request_params) ''v'' = Some (PStr ''5.0''))"
  using call_autocomplete_overrides
    [where self = example_api and h = "[[(''group_id'', PInt 123), (''v'', PStr ''5.0'')]]"
       and k = "''v''" and v = "PStr ''5.0''" and kwargs = "[(''group_id'', PInt 7)]"
       and str_rest = "\<lambda>v. []" and now = 0 and reply = "Inl (External ''timeout'')"]
  by (simp add: example_api_def wf_dict_def call_def alloc_def fill_request_params_def
      dict_update_def Let_def)


lemma api_method_heap:
  "api_method self h name p = (h @ [fill_request_params self (h ! p)], (convert_name name, length h))"
  by (simp add: api_method_def alloc_def Let_def)

lemma call_heap:
  "\<exists>d. call self h flag kwargs =
     (self\<lparr>method_name := []\<rparr>, h @ [kwargs, d], (convert_name (method_name self), Suc (length h)))"
  by (cases flag) (simp_all add: call_def alloc_def Let_def list_update_append)

lemma make_api_request_heap:
  "\<exists>self' d result.
     make_api_request str_rest self h now reply (name, p) = (self', h[p := d], result)"
  by (simp add: make_api_request_def Let_def split: prod.splits) blast

text \<open>
  C10. Neither \<open>method\<close> nor \<open>__call__\<close>, nor the request they dispatch, changes a
  dictionary that existed before the call: every object \<open>a\<close> of the store holds after
  the call what it held before. This covers the caller's dictionary \<open>p\<close> given to
  \<open>method\<close>, a dictionary unpacked into \<open>__call__\<close>, and \<open>autocomplete_params\<close>.
\<close>

theorem caller_mapping_unchanged:
  assumes "a < length h"
  shows "(case api_method self h name p of
            (h1, req) \<Rightarrow>
              h1 ! a = h ! a
            \<and> (case make_api_request str_rest self h1 now reply req of
                  (self2, h2, result) \<Rightarrow> h2 ! a = h ! a))
       \<and> (case call self h use_autocomplete_params kwargs of
            (self1, h1, req) \<Rightarrow>
              h1 ! a = h ! a
            \<and> (case make_api_request str_rest self1 h1 now reply req of
                  (self2, h2, result) \<Rightarrow> h2 ! a = h ! a))"
proof (intro conjI)
  obtain self' d result where
    r: "make_api_request str_rest self (h @ [fill_request_params self (h ! p)]) now reply
          (convert_name name, length h)
        = (self', (h @ [fill_request_params self (h ! p)])[length h := d], result)"
    using make_api_request_heap by blast
  show "case api_method self h name p of
            (h1, req) \<Rightarrow>
              h1 ! a = h ! a
            \<and> (case make_api_request str_rest self h1 now reply req of
                  (self2, h2, result) \<Rightarrow> h2 ! a = h ! a)"
    using assms by (simp add: api_method_heap r nth_append)
next
  obtain d0 where
    c: "call self h use_autocomplete_params kwargs =
          (self\<lparr>method_name := []\<rparr>, h @ [kwargs, d0],
           (convert_name (method_name self), Suc (length h)))"
    using call_heap by blast
  obtain self' d result where
    r: "make_api_request str_rest (self\<lparr>method_name := []\<rparr>) (h @ [kwargs, d0]) now reply
          (convert_name (method_name self), Suc (length h))
        = (self', (h @ [kwargs, d0])[Suc (length h) := d], result)"
    using make_api_request_heap by blast
  show "case call self h use_autocomplete_params kwargs of
            (self1, h1, req) \<Rightarrow>
              h1 ! a = h ! a
            \<and> (case make_api_request str_rest self1 h1 now reply req of
                  (self2, h2, result) \<Rightarrow> h2 ! a = h ! a)"
    using assms by (simp add: c r nth_append)
qed

theorem caller_mapping_unchanged_witness:
  "(0::nat) < length [[(''peer_ids'', PList [PInt 1, PInt 2])]]
   \<and> (case api_method example_api [[(''peer_ids'', PList [PInt 1, PInt 2])]] ''messages.get_by_id'' 0 of
         (h1, req) \<Rightarrow>
           (case make_api_request (\<lambda>v. []) example_api h1 11 (Inl (External ''timeout'')) req of
              (self2, h2, result) \<Rightarrow>
                h2 = [[(''peer_ids'', PList [PInt 1, PInt 2])],
                      [(''access_token'', PStr ''t''), (''v'', PStr ''5.133''),
                       (''peer_ids'', PStr ''1,2'')]]
              \<and> h2 ! 0 = [(''peer_ids'', PList [PInt 1, PInt 2])]))"
  using caller_mapping_unchanged
    [where a = 0 and h = "[[(''peer_ids'', PList [PInt 1, PInt 2])]]" and self = example_api
       and name = "''messages.get_by_id''" and p = 0 and str_rest = "\<lambda>v. []" and now = 11
       and reply = "Inl (External ''timeout'')" and use_autocomplete_params = False
       and kwargs = "[]"]
  by (simp add: api_method_def alloc_def Let_def make_api_request_def waiting_def example_api_def
      fill_request_params_def dict_update_def flatten_params_def flatten_step_def
      upt_rec [of 0] upt_rec [of 1] upt_rec [of 2] upt_rec [of 3]
      str_int_def digits.simps digit_char_def char_of_def bit_Suc_0_iff)

end
